theory Spec2Isabelle
  imports Complex_Main "HOL-Library.Multiset" "HOL-Library.Sublist"
begin

section \<open>Step results manager: a two-tier cache of pipeline artifacts\<close>

text \<open>
  A shallow embedding of \<^verbatim>\<open>apps/utils/step_results_manager.py\<close>. The class
  \<^verbatim>\<open>StepResultsManager\<close> keeps the result of every pipeline step in two places: the
  Streamlit session mapping \<^verbatim>\<open>st.session_state\<close> and one pickle file per step under
  \<^verbatim>\<open>artifacts_dir\<close>. Every method becomes a function that takes the world (session
  mapping and file system) and returns its result together with the new world. A method
  that can raise returns a sum, with the exception on the left.
\<close>

subsection \<open>Python values\<close>

text \<open>
  The payloads are arbitrary Python objects. The code looks at them only in
  \<^verbatim>\<open>_is_valid_data\<close> (\<^verbatim>\<open>None\<close>, \<^verbatim>\<open>dict\<close>, \<^verbatim>\<open>list\<close>/\<^verbatim>\<open>tuple\<close>,
  \<^verbatim>\<open>pandas.DataFrame\<close>, anything else) and hands them to \<^verbatim>\<open>pickle\<close>. A data frame
  is its index labels and its columns (label and cells); \<^verbatim>\<open>DataFrame.empty\<close> holds when
  one of the two axes has length zero. \<open>PObject c p\<close> is an object of any other class
  \<open>c\<close> (a set, an array, a lambda, an open file); \<open>p\<close> says whether pickle can
  serialise it.
\<close>

datatype pyval =
    PNone
  | PBool bool
  | PInt int
  | PFloat real
  | PStr string
  | PDict "(pyval \<times> pyval) list"
  | PList "pyval list"
  | PTuple "pyval list"
  | PDataFrame "pyval list" "(pyval \<times> pyval list) list"
  | PObject string bool

text \<open>\<^verbatim>\<open>StepResultsManager._is_valid_data\<close>, with the tests in the order of the source.\<close>

fun is_valid_data :: "pyval \<Rightarrow> bool" where
  "is_valid_data PNone = False"
| "is_valid_data (PDict items) = (length items > 0)"
| "is_valid_data (PList xs) = (length xs > 0)"
| "is_valid_data (PTuple xs) = (length xs > 0)"
| "is_valid_data (PDataFrame index columns) = (\<not> (index = [] \<or> columns = []))"
| "is_valid_data _ = True"

subsection \<open>Pickle\<close>

text \<open>
  \<^verbatim>\<open>pickle\<close> is a library, not code of the repository. A file is modelled by what
  \<^verbatim>\<open>pickle.load\<close> makes of it: \<open>Pickle v\<close> is a complete pickle of \<open>v\<close>, \<open>Garbage\<close>
  is any content that \<^verbatim>\<open>pickle.load\<close> rejects with an exception (an empty or
  truncated file, foreign bytes). \<^verbatim>\<open>pickle.dump\<close> raises on an object that has an
  unpicklable part; \<open>None\<close> stands for the raised exception in both functions.
\<close>

datatype blob = Pickle pyval | Garbage

fun picklable :: "pyval \<Rightarrow> bool" where
  "picklable (PObject c p) = p"
| "picklable (PDict items) =
     (list_all picklable (map fst items) \<and> list_all picklable (map snd items))"
| "picklable (PList xs) = list_all picklable xs"
| "picklable (PTuple xs) = list_all picklable xs"
| "picklable (PDataFrame index columns) =
     (list_all picklable index \<and> list_all picklable (map fst columns)
        \<and> list_all picklable (concat (map snd columns)))"
| "picklable _ = True"

definition pickle_dump :: "pyval \<Rightarrow> blob option" where
  "pickle_dump data = (if picklable data then Some (Pickle data) else None)"

fun pickle_load :: "blob \<Rightarrow> pyval option" where
  "pickle_load (Pickle v) = Some v"
| "pickle_load Garbage = None"

subsection \<open>Exceptions\<close>

text \<open>
  The exceptions that reach or pass through the module: the \<^verbatim>\<open>ValueError\<close> of the
  accessor (and of a path with a NUL byte), the \<^verbatim>\<open>OSError\<close> subclasses of the file
  system, and those of the session store.
\<close>

datatype exn =
    ValueError string
  | FileExistsError
  | FileNotFoundError
  | NotADirectoryError
  | IsADirectoryError
  | PermissionError
  | KeyError
  | StreamlitAPIException

subsection \<open>Paths\<close>

text \<open>
  \<^verbatim>\<open>pathlib.Path\<close> on POSIX: a root (empty, \<^verbatim>\<open>/\<close>, or \<^verbatim>\<open>//\<close> for exactly two leading
  slashes) and the components, with empty components and \<^verbatim>\<open>.\<close> dropped.
\<close>

record path =
  anchor :: string
  parts :: "string list"

text \<open>\<^verbatim>\<open>str.split(sep)\<close> for a one-character separator.\<close>

fun split_sep :: "char \<Rightarrow> string \<Rightarrow> string list" where
  "split_sep c [] = [[]]"
| "split_sep c (x # xs) =
     (if x = c then [] # split_sep c xs
      else (case split_sep c xs of
              [] \<Rightarrow> [[x]]
            | y # ys \<Rightarrow> (x # y) # ys))"

definition splitroot :: "string \<Rightarrow> string" where
  "splitroot s =
     (if length (takeWhile (\<lambda>c. c = CHR ''/'') s) = 2 then ''//''
      else if length (takeWhile (\<lambda>c. c = CHR ''/'') s) > 0 then ''/''
      else [])"

definition Path :: "string \<Rightarrow> path" where
  "Path s =
     \<lparr>anchor = splitroot s,
      parts = filter (\<lambda>x. x \<noteq> [] \<and> x \<noteq> ''.'') (split_sep CHR ''/'' s)\<rparr>"

text \<open>\<^verbatim>\<open>p / s\<close>: an absolute right operand replaces the path.\<close>

definition joinpath :: "path \<Rightarrow> string \<Rightarrow> path" where
  "joinpath p s =
     (if splitroot s \<noteq> [] then Path s
      else p\<lparr>parts := parts p @ parts (Path s)\<rparr>)"

definition parent :: "path \<Rightarrow> path" where
  "parent p = p\<lparr>parts := butlast (parts p)\<rparr>"

fun join_sep :: "string \<Rightarrow> string list \<Rightarrow> string" where
  "join_sep sep [] = []"
| "join_sep sep [x] = x"
| "join_sep sep (x # y # ys) = x @ sep @ join_sep sep (y # ys)"

text \<open>\<^verbatim>\<open>str(p)\<close>.\<close>

definition str_of_path :: "path \<Rightarrow> string" where
  "str_of_path p =
     (if anchor p = [] \<and> parts p = [] then ''.''
      else anchor p @ join_sep ''/'' (parts p))"

definition has_nul :: "path \<Rightarrow> bool" where
  "has_nul p = list_ex (\<lambda>x. CHR 0x00 \<in> set x) (parts p)"

subsection \<open>The world: session mapping and file system\<close>

text \<open>
  \<open>session_state\<close> holds the entries of \<^verbatim>\<open>st.session_state\<close>. \<open>nodes\<close> maps every
  existing path to a directory or to a regular file with its content; a path without
  components (the root, or the working directory) is always a directory. \<open>read_only\<close>
  is the set of paths that the process may not create, write or remove: there the
  system calls fail with \<^verbatim>\<open>PermissionError\<close>. Symbolic links and \<^verbatim>\<open>..\<close> are not
  resolved. The diagnostic \<^verbatim>\<open>print\<close> calls have no effect on the world.
\<close>

datatype node = Dir | File blob

record world =
  session_state :: "string \<rightharpoonup> pyval"
  nodes :: "path \<rightharpoonup> node"
  read_only :: "path set"

record manager =
  artifacts_dir :: path

definition node_at :: "world \<Rightarrow> path \<Rightarrow> node option" where
  "node_at w p = (if parts p = [] then Some Dir else nodes w p)"

text \<open>\<^verbatim>\<open>p.exists()\<close> and \<^verbatim>\<open>p.is_dir()\<close>.\<close>

definition path_exists :: "path \<Rightarrow> world \<Rightarrow> bool" where
  "path_exists p w = (node_at w p \<noteq> None)"

definition is_dir :: "path \<Rightarrow> world \<Rightarrow> bool" where
  "is_dir p w = (node_at w p = Some Dir)"

text \<open>
  \<^verbatim>\<open>open(p, 'wb')\<close> creates the file or truncates it; the empty file does not unpickle.
\<close>

definition open_wb :: "path \<Rightarrow> world \<Rightarrow> exn + world" where
  "open_wb p w =
     (if has_nul p then Inl (ValueError ''embedded null byte'')
      else (case node_at w p of
              Some Dir \<Rightarrow> Inl IsADirectoryError
            | Some (File b) \<Rightarrow>
                (if p \<in> read_only w then Inl PermissionError
                 else Inr (w\<lparr>nodes := (nodes w)(p \<mapsto> File Garbage)\<rparr>))
            | None \<Rightarrow>
                (case node_at w (parent p) of
                   None \<Rightarrow> Inl FileNotFoundError
                 | Some (File b) \<Rightarrow> Inl NotADirectoryError
                 | Some Dir \<Rightarrow>
                     (if p \<in> read_only w then Inl PermissionError
                      else Inr (w\<lparr>nodes := (nodes w)(p \<mapsto> File Garbage)\<rparr>)))))"

text \<open>\<^verbatim>\<open>open(p, 'rb')\<close>, giving the content that is then read.\<close>

definition open_rb :: "path \<Rightarrow> world \<Rightarrow> exn + blob" where
  "open_rb p w =
     (case node_at w p of
        None \<Rightarrow> Inl FileNotFoundError
      | Some Dir \<Rightarrow> Inl IsADirectoryError
      | Some (File b) \<Rightarrow> Inr b)"

text \<open>\<^verbatim>\<open>p.unlink()\<close>.\<close>

definition unlink :: "path \<Rightarrow> world \<Rightarrow> exn + world" where
  "unlink p w =
     (case node_at w p of
        None \<Rightarrow> Inl FileNotFoundError
      | Some Dir \<Rightarrow> Inl IsADirectoryError
      | Some (File b) \<Rightarrow>
          (if p \<in> read_only w then Inl PermissionError
           else Inr (w\<lparr>nodes := (nodes w)(p := None)\<rparr>)))"

text \<open>
  \<^verbatim>\<open>p.mkdir(parents=True, exist_ok=True)\<close>, by its effect: the path and its ancestors
  are visited from the top; an existing directory is kept, a missing one is created, a
  regular file in the way raises (\<^verbatim>\<open>FileExistsError\<close> at the path itself,
  \<^verbatim>\<open>NotADirectoryError\<close> above it). The world is returned also when the call raises,
  since the ancestors created before the failure stay.
\<close>

fun mkdir_chain :: "path list \<Rightarrow> world \<Rightarrow> exn option \<times> world" where
  "mkdir_chain [] w = (None, w)"
| "mkdir_chain (p # ps) w =
     (case node_at w p of
        Some Dir \<Rightarrow> mkdir_chain ps w
      | Some (File b) \<Rightarrow> (Some (if ps = [] then FileExistsError else NotADirectoryError), w)
      | None \<Rightarrow>
          (if p \<in> read_only w then (Some PermissionError, w)
           else mkdir_chain ps (w\<lparr>nodes := (nodes w)(p \<mapsto> Dir)\<rparr>)))"

definition ancestors_and_self :: "path \<Rightarrow> path list" where
  "ancestors_and_self p = map (\<lambda>n. p\<lparr>parts := take n (parts p)\<rparr>) [1..<Suc (length (parts p))]"

definition Path_mkdir :: "path \<Rightarrow> world \<Rightarrow> exn option \<times> world" where
  "Path_mkdir p w =
     (if has_nul p then (Some (ValueError ''embedded null byte''), w)
      else mkdir_chain (ancestors_and_self p) w)"

subsection \<open>The session store\<close>

text \<open>
  \<^verbatim>\<open>st.session_state\<close> is a \<^verbatim>\<open>MutableMapping\<close> whose item methods first reject the
  keys that Streamlit reserves for generated element ids, those that start with
  \<^verbatim>\<open>$$ID\<close>, with a \<^verbatim>\<open>StreamlitAPIException\<close>. The membership test and \<^verbatim>\<open>get\<close> are
  the mixin methods, which call \<^verbatim>\<open>__getitem__\<close> and catch \<^verbatim>\<open>KeyError\<close> only, so they
  raise on a reserved key too. The keys of widgets of the running script are outside the
  model.
\<close>

definition GENERATED_ELEMENT_ID_PREFIX :: string where
  "GENERATED_ELEMENT_ID_PREFIX = ''$$ID''"

definition is_element_id :: "string \<Rightarrow> bool" where
  "is_element_id key = prefix GENERATED_ELEMENT_ID_PREFIX key"

definition session_getitem :: "string \<Rightarrow> world \<Rightarrow> exn + pyval" where
  "session_getitem key w =
     (if is_element_id key then Inl StreamlitAPIException
      else (case session_state w key of None \<Rightarrow> Inl KeyError | Some v \<Rightarrow> Inr v))"

definition session_contains :: "string \<Rightarrow> world \<Rightarrow> exn + bool" where
  "session_contains key w =
     (case session_getitem key w of
        Inr v \<Rightarrow> Inr True
      | Inl e \<Rightarrow> (if e = KeyError then Inr False else Inl e))"

definition session_get :: "string \<Rightarrow> world \<Rightarrow> exn + pyval" where
  "session_get key w =
     (case session_getitem key w of
        Inr v \<Rightarrow> Inr v
      | Inl e \<Rightarrow> (if e = KeyError then Inr PNone else Inl e))"

definition session_setitem :: "string \<Rightarrow> pyval \<Rightarrow> world \<Rightarrow> exn + world" where
  "session_setitem key v w =
     (if is_element_id key then Inl StreamlitAPIException
      else Inr (w\<lparr>session_state := (session_state w)(key \<mapsto> v)\<rparr>))"

definition session_delitem :: "string \<Rightarrow> world \<Rightarrow> exn + world" where
  "session_delitem key w =
     (if is_element_id key then Inl StreamlitAPIException
      else (case session_state w key of
              None \<Rightarrow> Inl KeyError
            | Some v \<Rightarrow> Inr (w\<lparr>session_state := (session_state w)(key := None)\<rparr>)))"

subsection \<open>The stage catalog\<close>

text \<open>
  \<^verbatim>\<open>STEP_MAPPINGS\<close>, a dict literal: its items in the order of the source, which is the
  order in which \<^verbatim>\<open>STEP_MAPPINGS.keys()\<close> iterates.
\<close>

definition STEP_MAPPINGS :: "(string \<times> string) list" where
  "STEP_MAPPINGS =
    [(''pruned_interactions'', ''pruned_interactions.pkl''),
     (''feature_encoding'', ''feature_encoding.pkl''),
     (''user_profiles'', ''user_profiles.pkl''),
     (''gnn_graph'', ''gnn_graph.pkl''),
     (''gnn_propagation'', ''gnn_propagation.pkl''),
     (''gnn_training'', ''gnn_training.pkl''),
     (''gnn_predictions'', ''streamlit_gnn_predictions.pkl''),
     (''cbf_predictions'', ''streamlit_cbf_predictions.pkl''),
     (''hybrid_predictions'', ''streamlit_hybrid_predictions.pkl''),
     (''cbf_evaluation_metrics'', ''cbf_evaluation_metrics.pkl''),
     (''gnn_evaluation_metrics'', ''gnn_evaluation_metrics.pkl''),
     (''hybrid_evaluation_metrics'', ''hybrid_evaluation_metrics.pkl''),
     (''personalized_filters'', ''personalized_filters.pkl''),
     (''outfit_recommendations'', ''outfit_recommendations.pkl''),
     (''training_time'', ''training_time.pkl''),
     (''inference_time'', ''inference_time.pkl''),
     (''gnn_training_time'', ''gnn_training_time.pkl''),
     (''gnn_inference_time'', ''gnn_inference_time.pkl'')]"

text \<open>\<^verbatim>\<open>STEP_MAPPINGS.keys()\<close>.\<close>

definition step_keys :: "string list" where
  "step_keys = map fst STEP_MAPPINGS"

subsection \<open>Single-step operations\<close>

text \<open>
  \<^verbatim>\<open>save_step_result\<close>. \<open>map_of STEP_MAPPINGS step_key\<close> is both the membership test
  and the lookup \<^verbatim>\<open>STEP_MAPPINGS[step_key]\<close>. Every exception of \<^verbatim>\<open>open\<close> and of
  \<^verbatim>\<open>pickle.dump\<close> is caught. Opening the file truncates it before \<^verbatim>\<open>pickle.dump\<close>
  runs, so a failed dump leaves a file that does not unpickle.
\<close>

definition save_step_result :: "manager \<Rightarrow> string \<Rightarrow> pyval \<Rightarrow> world \<Rightarrow> bool \<times> world" where
  "save_step_result self step_key data w =
     (case map_of STEP_MAPPINGS step_key of
        None \<Rightarrow> (False, w)
      | Some filename \<Rightarrow>
          (let filepath = joinpath (artifacts_dir self) filename in
           case open_wb filepath w of
             Inl e \<Rightarrow> (False, w)
           | Inr w1 \<Rightarrow>
               (case pickle_dump data of
                  Some b \<Rightarrow> (True, w1\<lparr>nodes := (nodes w1)(filepath \<mapsto> File b)\<rparr>)
                | None \<Rightarrow> (False, w1))))"

text \<open>
  \<^verbatim>\<open>load_step_result\<close> returns Python's \<^verbatim>\<open>None\<close> for an unknown key, a missing file and
  a file that cannot be opened or does not unpickle, and otherwise whatever the file
  unpickles to. It does not change the world.
\<close>

definition load_step_result :: "manager \<Rightarrow> string \<Rightarrow> world \<Rightarrow> pyval" where
  "load_step_result self step_key w =
     (case map_of STEP_MAPPINGS step_key of
        None \<Rightarrow> PNone
      | Some filename \<Rightarrow>
          (let filepath = joinpath (artifacts_dir self) filename in
           if \<not> path_exists filepath w then PNone
           else (case open_rb filepath w of
                   Inl e \<Rightarrow> PNone
                 | Inr b \<Rightarrow> (case pickle_load b of Some v \<Rightarrow> v | None \<Rightarrow> PNone))))"

text \<open>
  \<^verbatim>\<open>save_to_session_and_file\<close>: the session entry first, outside any \<^verbatim>\<open>try\<close>, then
  the file.
\<close>

definition save_to_session_and_file ::
    "manager \<Rightarrow> string \<Rightarrow> pyval \<Rightarrow> world \<Rightarrow> exn + bool \<times> world" where
  "save_to_session_and_file self step_key data w =
     (case session_setitem step_key data w of
        Inl e \<Rightarrow> Inl e
      | Inr w1 \<Rightarrow> Inr (save_step_result self step_key data w1))"

text \<open>
  The test
  \<^verbatim>\<open>step_key in st.session_state and self._is_valid_data(st.session_state[step_key])\<close>
  of \<^verbatim>\<open>load_from_file_to_session\<close>, and its variant with
  \<^verbatim>\<open>st.session_state.get(step_key)\<close> in the three status methods.
\<close>

definition in_session :: "string \<Rightarrow> world \<Rightarrow> exn + bool" where
  "in_session step_key w =
     (case session_contains step_key w of
        Inl e \<Rightarrow> Inl e
      | Inr present \<Rightarrow>
          (if present
           then (case session_getitem step_key w of
                   Inl e \<Rightarrow> Inl e
                 | Inr v \<Rightarrow> Inr (is_valid_data v))
           else Inr False))"

definition in_session_get :: "string \<Rightarrow> world \<Rightarrow> exn + bool" where
  "in_session_get step_key w =
     (case session_contains step_key w of
        Inl e \<Rightarrow> Inl e
      | Inr present \<Rightarrow>
          (if present
           then (case session_get step_key w of
                   Inl e \<Rightarrow> Inl e
                 | Inr v \<Rightarrow> Inr (is_valid_data v))
           else Inr False))"

text \<open>
  \<^verbatim>\<open>load_from_file_to_session\<close>. With \<^verbatim>\<open>force\<close> the session is not consulted
  (\<^verbatim>\<open>not force and ...\<close> stops at its first operand).
\<close>

definition load_from_file_to_session ::
    "manager \<Rightarrow> string \<Rightarrow> bool \<Rightarrow> world \<Rightarrow> exn + bool \<times> world" where
  "load_from_file_to_session self step_key force w =
     (case (if \<not> force then in_session step_key w else Inr False) of
        Inl e \<Rightarrow> Inl e
      | Inr skip \<Rightarrow>
          (if skip then Inr (True, w)
           else (let data = load_step_result self step_key w in
                 if data \<noteq> PNone
                 then (case session_setitem step_key data w of
                         Inl e \<Rightarrow> Inl e
                       | Inr w' \<Rightarrow> Inr (True, w'))
                 else Inr (False, w))))"

text \<open>
  \<^verbatim>\<open>clear_step\<close>. The membership test is outside the \<^verbatim>\<open>try\<close>; the deletion and the
  \<^verbatim>\<open>unlink\<close> are inside one each.
\<close>

definition clear_step ::
    "manager \<Rightarrow> string \<Rightarrow> bool \<Rightarrow> bool \<Rightarrow> world \<Rightarrow> exn + bool \<times> world" where
  "clear_step self step_key clear_session clear_file w =
     (case (if clear_session then session_contains step_key w else Inr False) of
        Inl e \<Rightarrow> Inl e
      | Inr present \<Rightarrow>
          (let (success, w1) =
                 (if present
                  then (case session_delitem step_key w of
                          Inr w' \<Rightarrow> (True, w')
                        | Inl e \<Rightarrow> (False, w))
                  else (True, w))
           in if clear_file
              then (case map_of STEP_MAPPINGS step_key of
                      None \<Rightarrow> Inr (success, w1)
                    | Some filename \<Rightarrow>
                        (let filepath = joinpath (artifacts_dir self) filename in
                         if path_exists filepath w1
                         then (case unlink filepath w1 of
                                 Inr w2 \<Rightarrow> Inr (success, w2)
                               | Inl e \<Rightarrow> Inr (False, w1))
                         else Inr (success, w1)))
              else Inr (success, w1)))"

subsection \<open>Operations over the whole catalog\<close>

text \<open>
  The loops run over \<^verbatim>\<open>STEP_MAPPINGS.keys()\<close> and look the file name up by key; the
  model runs over the items, which gives each key with its file name. The result
  dicts are maps, updated by key. An exception ends the loop.
\<close>

fun restore_loop ::
    "manager \<Rightarrow> bool \<Rightarrow> string list \<Rightarrow> (string \<rightharpoonup> bool) \<Rightarrow> world
       \<Rightarrow> exn + (string \<rightharpoonup> bool) \<times> world" where
  "restore_loop self force [] results w = Inr (results, w)"
| "restore_loop self force (step_key # rest) results w =
     (case load_from_file_to_session self step_key force w of
        Inl e \<Rightarrow> Inl e
      | Inr (ok, w') \<Rightarrow> restore_loop self force rest (results(step_key \<mapsto> ok)) w')"

definition restore_all_steps ::
    "manager \<Rightarrow> bool \<Rightarrow> world \<Rightarrow> exn + (string \<rightharpoonup> bool) \<times> world" where
  "restore_all_steps self force w = restore_loop self force step_keys Map.empty w"

record step_status =
  st_in_session :: bool
  st_in_file :: bool
  st_file_path :: "string option"

fun status_loop ::
    "manager \<Rightarrow> world \<Rightarrow> (string \<times> string) list \<Rightarrow> (string \<rightharpoonup> step_status)
       \<Rightarrow> exn + (string \<rightharpoonup> step_status)" where
  "status_loop self w [] status = Inr status"
| "status_loop self w ((step_key, filename) # rest) status =
     (let filepath = joinpath (artifacts_dir self) filename in
      case in_session_get step_key w of
        Inl e \<Rightarrow> Inl e
      | Inr in_sess \<Rightarrow>
          status_loop self w rest
            (status(step_key \<mapsto>
               \<lparr>st_in_session = in_sess,
                st_in_file = path_exists filepath w,
                st_file_path =
                  (if path_exists filepath w then Some (str_of_path filepath) else None)\<rparr>)))"

definition get_step_status :: "manager \<Rightarrow> world \<Rightarrow> exn + (string \<rightharpoonup> step_status)" where
  "get_step_status self w = status_loop self w STEP_MAPPINGS Map.empty"

fun missing_loop ::
    "manager \<Rightarrow> world \<Rightarrow> (string \<times> string) list \<Rightarrow> string list \<Rightarrow> exn + string list" where
  "missing_loop self w [] missing = Inr missing"
| "missing_loop self w ((step_key, filename) # rest) missing =
     (let filepath = joinpath (artifacts_dir self) filename in
      case in_session_get step_key w of
        Inl e \<Rightarrow> Inl e
      | Inr in_sess \<Rightarrow>
          (let in_file = path_exists filepath w
           in missing_loop self w rest
                (if \<not> in_sess \<and> \<not> in_file then missing @ [step_key] else missing)))"

definition get_missing_steps :: "manager \<Rightarrow> world \<Rightarrow> exn + string list" where
  "get_missing_steps self w = missing_loop self w STEP_MAPPINGS []"

fun completed_loop ::
    "manager \<Rightarrow> world \<Rightarrow> (string \<times> string) list \<Rightarrow> string list \<Rightarrow> exn + string list" where
  "completed_loop self w [] completed = Inr completed"
| "completed_loop self w ((step_key, filename) # rest) completed =
     (let filepath = joinpath (artifacts_dir self) filename in
      case in_session_get step_key w of
        Inl e \<Rightarrow> Inl e
      | Inr in_sess \<Rightarrow>
          (let in_file = path_exists filepath w
           in completed_loop self w rest
                (if in_sess \<or> in_file then completed @ [step_key] else completed)))"

definition get_completed_steps :: "manager \<Rightarrow> world \<Rightarrow> exn + string list" where
  "get_completed_steps self w = completed_loop self w STEP_MAPPINGS []"

subsection \<open>The constructor and the singleton accessor\<close>

text \<open>
  \<^verbatim>\<open>__init__\<close> stores \<^verbatim>\<open>Path(artifacts_dir)\<close> and creates the directory; an exception
  of \<^verbatim>\<open>mkdir\<close> is not caught. The state of the accessor is the module global
  \<^verbatim>\<open>_manager_instance\<close> and the world; both are returned also when the call raises,
  the global then being the one before the call.
\<close>

definition StepResultsManager_init :: "string \<Rightarrow> world \<Rightarrow> (exn + manager) \<times> world" where
  "StepResultsManager_init dir w =
     (let self = \<lparr>artifacts_dir = Path dir\<rparr> in
      case Path_mkdir (artifacts_dir self) w of
        (Some e, w') \<Rightarrow> (Inl e, w')
      | (None, w') \<Rightarrow> (Inr self, w'))"

definition get_step_results_manager ::
    "string option \<Rightarrow> manager option \<Rightarrow> world \<Rightarrow> (exn + manager) \<times> manager option \<times> world" where
  "get_step_results_manager dir manager_instance w =
     (case manager_instance of
        None \<Rightarrow>
          (case dir of
             None \<Rightarrow>
               (Inl (ValueError ''artifacts_dir must be provided for first initialization''),
                None, w)
           | Some d \<Rightarrow>
               (case StepResultsManager_init d w of
                  (Inl e, w') \<Rightarrow> (Inl e, None, w')
                | (Inr m, w') \<Rightarrow> (Inr m, Some m, w')))
      | Some m \<Rightarrow> (Inr m, Some m, w))"

subsection \<open>Example managers and worlds\<close>

text \<open>Concrete inputs on which the theorems below are evaluated.\<close>

definition artifacts :: path where
  "artifacts = \<lparr>anchor = [], parts = [''artifacts'']\<rparr>"

definition training_time_pkl :: path where
  "training_time_pkl = \<lparr>anchor = [], parts = [''artifacts'', ''training_time.pkl'']\<rparr>"

definition example_manager :: manager where
  "example_manager = \<lparr>artifacts_dir = artifacts\<rparr>"

text \<open>Nothing in the session, nothing on disk.\<close>

definition empty_world :: world where
  "empty_world = \<lparr>session_state = Map.empty, nodes = Map.empty, read_only = {}\<rparr>"

text \<open>The artifacts directory exists and is empty.\<close>

definition fresh_world :: world where
  "fresh_world = \<lparr>session_state = Map.empty, nodes = [artifacts \<mapsto> Dir], read_only = {}\<rparr>"

text \<open>A regular file where the artifacts directory should be.\<close>

definition blocked_world :: world where
  "blocked_world =
     \<lparr>session_state = Map.empty, nodes = [artifacts \<mapsto> File Garbage], read_only = {}\<rparr>"

text \<open>A valid session entry and no file.\<close>

definition stale_world :: world where
  "stale_world =
     \<lparr>session_state = [''training_time'' \<mapsto> PInt 5], nodes = [artifacts \<mapsto> Dir],
      read_only = {}\<rparr>"

text \<open>The payload \<^verbatim>\<open>None\<close> in the session entry and in the file.\<close>

definition none_written_world :: world where
  "none_written_world =
     \<lparr>session_state = [''training_time'' \<mapsto> PNone],
      nodes = [artifacts \<mapsto> Dir, training_time_pkl \<mapsto> File (Pickle PNone)],
      read_only = {}\<rparr>"

text \<open>A valid session entry and a file that holds another value.\<close>

definition fresh_file_world :: world where
  "fresh_file_world =
     \<lparr>session_state = [''training_time'' \<mapsto> PInt 5],
      nodes = [artifacts \<mapsto> Dir, training_time_pkl \<mapsto> File (Pickle (PInt 7))],
      read_only = {}\<rparr>"

text \<open>A file that holds a pickled \<^verbatim>\<open>None\<close>, with and without a valid session entry.\<close>

definition none_file_world :: world where
  "none_file_world =
     \<lparr>session_state = [''training_time'' \<mapsto> PInt 5],
      nodes = [artifacts \<mapsto> Dir, training_time_pkl \<mapsto> File (Pickle PNone)],
      read_only = {}\<rparr>"

definition none_file_fresh_world :: world where
  "none_file_fresh_world =
     \<lparr>session_state = Map.empty,
      nodes = [artifacts \<mapsto> Dir, training_time_pkl \<mapsto> File (Pickle PNone)],
      read_only = {}\<rparr>"

section \<open>Basic facts\<close>

lemma catalog_keys_distinct: "distinct (map fst STEP_MAPPINGS)"
  by (simp add: STEP_MAPPINGS_def)

lemma unknown_key: "k \<notin> set step_keys \<Longrightarrow> map_of STEP_MAPPINGS k = None"
  by (simp add: step_keys_def map_of_eq_None_iff)

lemma known_key: "k \<in> set step_keys \<Longrightarrow> \<exists>filename. map_of STEP_MAPPINGS k = Some filename"
  unfolding step_keys_def
  by (metis map_of_eq_None_iff not_Some_eq set_map)

lemma file_known: "map_of STEP_MAPPINGS k = Some filename \<Longrightarrow> k \<in> set step_keys"
  unfolding step_keys_def
  by (metis map_of_eq_None_iff option.distinct(1) set_map)

lemma no_such_stage_unknown: "''no_such_stage'' \<notin> set step_keys"
  by (simp add: step_keys_def STEP_MAPPINGS_def)

lemma training_time_file: "map_of STEP_MAPPINGS ''training_time'' = Some ''training_time.pkl''"
  by (simp add: STEP_MAPPINGS_def)

lemma training_time_known: "''training_time'' \<in> set step_keys"
  by (simp add: step_keys_def STEP_MAPPINGS_def)

lemma training_time_path: "joinpath (artifacts_dir example_manager) ''training_time.pkl'' = training_time_pkl"
  by (simp add: joinpath_def splitroot_def Path_def example_manager_def artifacts_def
        training_time_pkl_def)

text \<open>No catalog key is reserved by the session store; the key \<^verbatim>\<open>$$ID-x\<close> is.\<close>

lemma catalog_keys_accepted_all: "list_all (\<lambda>k. \<not> is_element_id k) step_keys"
  by (simp add: step_keys_def STEP_MAPPINGS_def is_element_id_def GENERATED_ELEMENT_ID_PREFIX_def)

lemma catalog_keys_accepted: "k \<in> set step_keys \<Longrightarrow> \<not> is_element_id k"
  using catalog_keys_accepted_all by (simp add: list_all_iff)

lemma reserved_key_unknown: "is_element_id k \<Longrightarrow> k \<notin> set step_keys"
  using catalog_keys_accepted by blast

lemma generated_id_reserved: "is_element_id ''$$ID-x''"
  by (simp add: is_element_id_def GENERATED_ELEMENT_ID_PREFIX_def)

lemma training_time_accepted: "\<not> is_element_id ''training_time''"
  by (rule catalog_keys_accepted [OF training_time_known])

lemma no_such_stage_accepted: "\<not> is_element_id ''no_such_stage''"
  by (simp add: is_element_id_def GENERATED_ELEMENT_ID_PREFIX_def)

text \<open>The session test on a key that the store accepts, and on one that it rejects.\<close>

lemma session_contains_accepted:
  "\<not> is_element_id k \<Longrightarrow> session_contains k w = Inr (session_state w k \<noteq> None)"
  by (simp add: session_contains_def session_getitem_def split: option.splits)

lemma session_contains_reserved:
  "is_element_id k \<Longrightarrow> session_contains k w = Inl StreamlitAPIException"
  by (simp add: session_contains_def session_getitem_def)

lemma in_session_accepted:
  "\<not> is_element_id k \<Longrightarrow>
   in_session k w = Inr (case session_state w k of None \<Rightarrow> False | Some v \<Rightarrow> is_valid_data v)"
  by (simp add: in_session_def session_contains_accepted session_getitem_def split: option.splits)

lemma in_session_reserved:
  "is_element_id k \<Longrightarrow> in_session k w = Inl StreamlitAPIException"
  by (simp add: in_session_def session_contains_reserved)

lemma in_session_get_eq: "in_session_get k w = in_session k w"
  by (simp add: in_session_get_def in_session_def session_get_def session_contains_def
        session_getitem_def split: option.splits)

lemma in_session_cong:
  "session_state w' k = session_state w k \<Longrightarrow> in_session k w' = in_session k w"
  by (cases "is_element_id k") (simp_all add: in_session_accepted in_session_reserved)

text \<open>Reading a file depends on the file system only, writing a file leaves the session alone.\<close>

lemma load_step_result_nodes:
  "nodes w' = nodes w \<Longrightarrow> load_step_result self k w' = load_step_result self k w"
  by (simp add: load_step_result_def path_exists_def open_rb_def node_at_def Let_def
        split: option.splits)

lemma load_step_result_known:
  "load_step_result self k w \<noteq> PNone \<Longrightarrow> k \<in> set step_keys"
proof (rule ccontr)
  assume "load_step_result self k w \<noteq> PNone" and "k \<notin> set step_keys"
  then show False
    using unknown_key [of k] by (simp add: load_step_result_def)
qed

lemma open_wb_result:
  "open_wb p w = Inr w1 \<Longrightarrow> w1 = w\<lparr>nodes := (nodes w)(p \<mapsto> File Garbage)\<rparr>"
  by (simp add: open_wb_def split: if_splits option.splits node.splits)



lemma save_step_result_session:
  "session_state (snd (save_step_result self k v w)) = session_state w"
proof (cases "map_of STEP_MAPPINGS k")
  case None
  then show ?thesis by (simp add: save_step_result_def)
next
  case (Some filename)
  show ?thesis
  proof (cases "open_wb (joinpath (artifacts_dir self) filename) w")
    case (Inl e)
    then show ?thesis
      using Some by (simp add: save_step_result_def)
  next
    case (Inr w1)
    then show ?thesis
      using Some open_wb_result [OF Inr]
      by (cases "pickle_dump v") (simp_all add: save_step_result_def)
  qed
qed

text \<open>The load, for a key that the session store accepts.\<close>

lemma load_accepted:
  "\<not> is_element_id k \<Longrightarrow>
   load_from_file_to_session self k force w =
     Inr (if \<not> force \<and> in_session k w = Inr True then (True, w)
          else if load_step_result self k w \<noteq> PNone
          then (True, w\<lparr>session_state := (session_state w)(k \<mapsto> load_step_result self k w)\<rparr>)
          else (False, w))"
  by (simp add: load_from_file_to_session_def in_session_accepted session_setitem_def Let_def)

lemma load_forced:
  "load_from_file_to_session self k True w =
     Inr (if load_step_result self k w \<noteq> PNone
          then (True, w\<lparr>session_state := (session_state w)(k \<mapsto> load_step_result self k w)\<rparr>)
          else (False, w))"
proof (cases "load_step_result self k w = PNone")
  case True
  then show ?thesis by (simp add: load_from_file_to_session_def)
next
  case False
  then have "\<not> is_element_id k"
    using load_step_result_known catalog_keys_accepted by blast
  then show ?thesis by (simp add: load_accepted)
qed

section \<open>Unknown stages\<close>

text \<open>
  C1, as stated, fails: the claim says that \<^verbatim>\<open>clear_step\<close> with \<^verbatim>\<open>clear_file=True\<close>
  returns false for a key outside the catalog. With the unknown key \<^verbatim>\<open>no_such_stage\<close>
  the call returns true: the guard \<^verbatim>\<open>if clear_file and step_key in self.STEP_MAPPINGS\<close>
  skips the deletion and \<^verbatim>\<open>success\<close> keeps its initial value. With the unknown key
  \<^verbatim>\<open>$$ID-x\<close>, which the session store reserves, the call returns no boolean at all:
  the membership test raises.
\<close>

theorem unknown_stage_clear_counterexample:
  "''no_such_stage'' \<notin> set step_keys
   \<and> clear_step example_manager ''no_such_stage'' True True fresh_world = Inr (True, fresh_world)
   \<and> ''$$ID-x'' \<notin> set step_keys
   \<and> clear_step example_manager ''$$ID-x'' True True fresh_world = Inl StreamlitAPIException"
proof -
  have "clear_step example_manager ''no_such_stage'' True True fresh_world = Inr (True, fresh_world)"
    by (simp add: clear_step_def session_contains_accepted [OF no_such_stage_accepted]
          unknown_key [OF no_such_stage_unknown] fresh_world_def)
  moreover have "clear_step example_manager ''$$ID-x'' True True fresh_world = Inl StreamlitAPIException"
    by (simp add: clear_step_def session_contains_reserved [OF generated_id_reserved])
  ultimately show ?thesis
    using no_such_stage_unknown reserved_key_unknown [OF generated_id_reserved] by simp
qed

text \<open>
  C1 (amended): for every key outside the catalog, \<^verbatim>\<open>save_step_result\<close> returns false
  and leaves the world as it is, and \<^verbatim>\<open>load_step_result\<close> returns \<^verbatim>\<open>None\<close>; neither
  raises. \<^verbatim>\<open>clear_step\<close> with \<^verbatim>\<open>clear_file=True\<close> deletes no file and returns true,
  after removing the session entry of the key when \<^verbatim>\<open>clear_session\<close> is set; the one
  exception is a key that the session store reserves (one that starts with \<^verbatim>\<open>$$ID\<close>)
  together with \<^verbatim>\<open>clear_session\<close>, where the call raises the store's exception.
\<close>

theorem unknown_stage_outcomes:
  assumes "k \<notin> set step_keys"
  shows "save_step_result self k v w = (False, w)
       \<and> load_step_result self k w = PNone
       \<and> (\<not> (clear_session \<and> is_element_id k) \<longrightarrow>
            clear_step self k clear_session True w
              = Inr (True, if clear_session
                           then w\<lparr>session_state := (session_state w)(k := None)\<rparr> else w))
       \<and> (clear_session \<and> is_element_id k \<longrightarrow>
            clear_step self k clear_session True w = Inl StreamlitAPIException)"
proof -
  note u = unknown_key [OF assms]
  have 1: "save_step_result self k v w = (False, w)"
    using u by (simp add: save_step_result_def)
  have 2: "load_step_result self k w = PNone"
    using u by (simp add: load_step_result_def)
  have 3: "clear_step self k False True w = Inr (True, w)"
    using u by (simp add: clear_step_def)
  have 4: "clear_step self k True True w
             = Inr (True, w\<lparr>session_state := (session_state w)(k := None)\<rparr>)"
    if "\<not> is_element_id k"
  proof (cases "session_state w k")
    case None
    then have "(session_state w)(k := None) = session_state w" by auto
    then show ?thesis
      using u that None by (simp add: clear_step_def session_contains_accepted)
  next
    case (Some x)
    then show ?thesis
      using u that
      by (simp add: clear_step_def session_contains_accepted session_delitem_def)
  qed
  have 5: "clear_step self k True True w = Inl StreamlitAPIException" if "is_element_id k"
    using that by (simp add: clear_step_def session_contains_reserved)
  show ?thesis
    using 1 2 3 4 5 by (cases clear_session) auto
qed

theorem unknown_stage_outcomes_witness:
  "''no_such_stage'' \<notin> set step_keys
   \<and> save_step_result example_manager ''no_such_stage'' (PInt 1) stale_world = (False, stale_world)
   \<and> load_step_result example_manager ''no_such_stage'' stale_world = PNone
   \<and> clear_step example_manager ''no_such_stage'' True True stale_world = Inr (True, stale_world)
   \<and> ''$$ID-x'' \<notin> set step_keys
   \<and> clear_step example_manager ''$$ID-x'' True True stale_world = Inl StreamlitAPIException"
proof -
  have r: "''$$ID-x'' \<notin> set step_keys"
    by (rule reserved_key_unknown [OF generated_id_reserved])
  have e: "stale_world\<lparr>session_state := (session_state stale_world)(''no_such_stage'' := None)\<rparr>
             = stale_world"
    by (simp add: stale_world_def)
  show ?thesis
    using unknown_stage_outcomes [OF no_such_stage_unknown, of example_manager "PInt 1" stale_world True]
      unknown_stage_outcomes [OF r, of example_manager "PInt 1" stale_world True]
      no_such_stage_unknown r no_such_stage_accepted generated_id_reserved e
    by simp
qed

section \<open>Loading into the session\<close>

text \<open>
  C2, as stated, fails: the claim says that a forced load overwrites an existing session
  entry for every key and every session. With a valid entry for \<^verbatim>\<open>training_time\<close>
  in the session and no file on disk, the forced load returns false and the entry is
  still the old one: the session is written only under \<^verbatim>\<open>if data is not None\<close>.
\<close>

theorem load_force_overwrite_counterexample:
  "in_session ''training_time'' stale_world = Inr True
   \<and> load_from_file_to_session example_manager ''training_time'' True stale_world
       = Inr (False, stale_world)
   \<and> session_state stale_world ''training_time'' = Some (PInt 5)"
proof -
  have "load_step_result example_manager ''training_time'' stale_world = PNone"
    by (simp add: load_step_result_def training_time_file training_time_path path_exists_def
          node_at_def stale_world_def training_time_pkl_def artifacts_def)
  then show ?thesis
    by (simp add: load_forced in_session_accepted [OF training_time_accepted] stale_world_def)
qed

text \<open>
  C2 (amended): for every key and every prior session, a forced load reads the durable
  tier whatever the session holds, also a valid entry, and does not raise. When the read
  gives a value other than \<^verbatim>\<open>None\<close>, that value replaces the session entry and the call
  returns true; when the read gives \<^verbatim>\<open>None\<close>, the call returns false and the world is
  unchanged. The flag and the new entry are those of the read for any session \<open>s\<close> put
  in place of the prior one.
\<close>

theorem load_force_rereads:
  "(load_step_result self k w \<noteq> PNone \<longrightarrow>
      load_from_file_to_session self k True w
        = Inr (True, w\<lparr>session_state := (session_state w)(k \<mapsto> load_step_result self k w)\<rparr>)
      \<and> map_sum id (\<lambda>r. session_state (snd r) k) (load_from_file_to_session self k True w)
        = Inr (Some (load_step_result self k w)))
   \<and> (load_step_result self k w = PNone \<longrightarrow>
      load_from_file_to_session self k True w = Inr (False, w))
   \<and> map_sum id fst (load_from_file_to_session self k True (w\<lparr>session_state := s\<rparr>))
        = map_sum id fst (load_from_file_to_session self k True w)
   \<and> map_sum id (\<lambda>r. session_state (snd r) k)
        (load_from_file_to_session self k True (w\<lparr>session_state := s\<rparr>))
        = Inr (if load_step_result self k w \<noteq> PNone
               then Some (load_step_result self k w) else s k)"
proof -
  have "load_step_result self k (w\<lparr>session_state := s\<rparr>) = load_step_result self k w"
    by (rule load_step_result_nodes) simp
  then show ?thesis
    by (simp add: load_forced)
qed

theorem load_force_rereads_witness:
  "in_session ''training_time'' fresh_file_world = Inr True
   \<and> load_step_result example_manager ''training_time'' fresh_file_world = PInt 7
   \<and> load_from_file_to_session example_manager ''training_time'' True fresh_file_world
        = Inr (True, fresh_file_world
                 \<lparr>session_state := (session_state fresh_file_world)(''training_time'' \<mapsto> PInt 7)\<rparr>)
   \<and> load_step_result example_manager ''training_time'' stale_world = PNone
   \<and> load_from_file_to_session example_manager ''training_time'' True stale_world
        = Inr (False, stale_world)"
proof -
  have l: "load_step_result example_manager ''training_time'' fresh_file_world = PInt 7"
    by (simp add: load_step_result_def training_time_file training_time_path path_exists_def
          open_rb_def node_at_def fresh_file_world_def training_time_pkl_def artifacts_def)
  have i: "in_session ''training_time'' fresh_file_world = Inr True"
    by (simp add: in_session_accepted [OF training_time_accepted] fresh_file_world_def)
  have n: "load_step_result example_manager ''training_time'' stale_world = PNone"
    by (simp add: load_step_result_def training_time_file training_time_path path_exists_def
          node_at_def stale_world_def training_time_pkl_def artifacts_def)
  show ?thesis
    using load_force_rereads [of example_manager "''training_time''" fresh_file_world
        "session_state fresh_file_world"]
      load_force_rereads [of example_manager "''training_time''" stale_world
        "session_state stale_world"] l i n
    by simp
qed

text \<open>
  C3, as stated, fails: the claim holds for every key and every payload. For the payload
  \<^verbatim>\<open>None\<close> on the known key \<^verbatim>\<open>training_time\<close>, \<^verbatim>\<open>save_to_session_and_file\<close>
  succeeds, the session entry is not valid, the load goes to the file, unpickles
  \<^verbatim>\<open>None\<close> and returns false. For the key \<^verbatim>\<open>$$ID-x\<close>, which the session store
  reserves, \<^verbatim>\<open>save_to_session_and_file\<close> raises and writes nothing.
\<close>

theorem write_both_then_load_counterexample:
  "save_to_session_and_file example_manager ''training_time'' PNone fresh_world
     = Inr (True, none_written_world)
   \<and> load_from_file_to_session example_manager ''training_time'' False none_written_world
     = Inr (False, none_written_world)
   \<and> save_to_session_and_file example_manager ''$$ID-x'' (PInt 0) fresh_world
     = Inl StreamlitAPIException"
proof -
  have s: "save_to_session_and_file example_manager ''training_time'' PNone fresh_world
             = Inr (True, none_written_world)"
    by (simp add: save_to_session_and_file_def session_setitem_def training_time_accepted
          save_step_result_def training_time_file training_time_path open_wb_def has_nul_def
          node_at_def parent_def pickle_dump_def fresh_world_def none_written_world_def
          training_time_pkl_def artifacts_def Let_def)
  have l: "load_step_result example_manager ''training_time'' none_written_world = PNone"
    by (simp add: load_step_result_def training_time_file training_time_path path_exists_def
          open_rb_def node_at_def none_written_world_def training_time_pkl_def artifacts_def)
  have i: "in_session ''training_time'' none_written_world = Inr False"
    by (simp add: in_session_accepted [OF training_time_accepted] none_written_world_def)
  have "load_from_file_to_session example_manager ''training_time'' False none_written_world
          = Inr (False, none_written_world)"
    using l i by (simp add: load_accepted [OF training_time_accepted])
  moreover have "save_to_session_and_file example_manager ''$$ID-x'' (PInt 0) fresh_world
       = Inl StreamlitAPIException"
    by (simp add: save_to_session_and_file_def session_setitem_def generated_id_reserved)
  ultimately show ?thesis
    using s by simp
qed

text \<open>
  C3 (amended): for every key that the session store accepts (one that does not start
  with \<^verbatim>\<open>$$ID\<close>) and every valid payload \<open>v\<close>, \<^verbatim>\<open>save_to_session_and_file\<close> followed
  by an unforced load returns true and leaves the session entry equal to \<open>v\<close>. The load
  does not read the durable tier: it gives the same answer and changes nothing when the
  file system \<open>f\<close> and the set \<open>r\<close> of protected paths are replaced by any others in
  between.
\<close>

theorem write_both_then_load:
  assumes "\<not> is_element_id k" and "is_valid_data v"
  shows "\<exists>ok w1. save_to_session_and_file self k v w = Inr (ok, w1)
       \<and> session_state w1 k = Some v
       \<and> load_from_file_to_session self k False w1 = Inr (True, w1)
       \<and> load_from_file_to_session self k False (w1\<lparr>nodes := f, read_only := r\<rparr>)
           = Inr (True, w1\<lparr>nodes := f, read_only := r\<rparr>)"
proof -
  let ?w0 = "w\<lparr>session_state := (session_state w)(k \<mapsto> v)\<rparr>"
  obtain ok w1 where sv: "save_step_result self k v ?w0 = (ok, w1)"
    by (cases "save_step_result self k v ?w0")
  have 1: "save_to_session_and_file self k v w = Inr (ok, w1)"
    using assms(1) sv by (simp add: save_to_session_and_file_def session_setitem_def)
  have "session_state w1 = session_state ?w0"
    using save_step_result_session [of self k v ?w0] sv by simp
  then have 2: "session_state w1 k = Some v" by simp
  then have "in_session k w1 = Inr True"
    and "in_session k (w1\<lparr>nodes := f, read_only := r\<rparr>) = Inr True"
    using assms by (simp_all add: in_session_accepted)
  then show ?thesis
    using 1 2 assms(1) by (simp add: load_accepted)
qed

theorem write_both_then_load_witness:
  "\<not> is_element_id ''training_time'' \<and> is_valid_data (PInt 0)
   \<and> (\<exists>ok w1. save_to_session_and_file example_manager ''training_time'' (PInt 0) fresh_world
                  = Inr (ok, w1)
        \<and> session_state w1 ''training_time'' = Some (PInt 0)
        \<and> load_from_file_to_session example_manager ''training_time'' False w1 = Inr (True, w1))"
proof -
  have v: "is_valid_data (PInt 0)" by simp
  show ?thesis
    using write_both_then_load [OF training_time_accepted v, of example_manager fresh_world]
      training_time_accepted v
    by blast
qed

section \<open>Missing and completed stages\<close>

lemma missing_loop_filter:
  "list_all (\<lambda>item. \<not> is_element_id (fst item)) items \<Longrightarrow>
   missing_loop self w items acc =
     Inr (acc @ map fst (filter (\<lambda>(k, f). \<not> (in_session k w = Inr True
                                      \<or> path_exists (joinpath (artifacts_dir self) f) w)) items))"
proof (induction items arbitrary: acc)
  case Nil
  then show ?case by simp
next
  case (Cons item items)
  obtain k f where item: "item = (k, f)" by (cases item)
  have a: "\<not> is_element_id k" and r: "list_all (\<lambda>item. \<not> is_element_id (fst item)) items"
    using Cons.prems item by simp_all
  show ?case
    unfolding item
    by (simp add: Let_def in_session_get_eq in_session_accepted [OF a] Cons.IH [OF r])
qed

lemma completed_loop_filter:
  "list_all (\<lambda>item. \<not> is_element_id (fst item)) items \<Longrightarrow>
   completed_loop self w items acc =
     Inr (acc @ map fst (filter (\<lambda>(k, f). in_session k w = Inr True
                                      \<or> path_exists (joinpath (artifacts_dir self) f) w) items))"
proof (induction items arbitrary: acc)
  case Nil
  then show ?case by simp
next
  case (Cons item items)
  obtain k f where item: "item = (k, f)" by (cases item)
  have a: "\<not> is_element_id k" and r: "list_all (\<lambda>item. \<not> is_element_id (fst item)) items"
    using Cons.prems item by simp_all
  show ?case
    unfolding item
    by (simp add: Let_def in_session_get_eq in_session_accepted [OF a] Cons.IH [OF r])
qed

lemma catalog_items_accepted: "list_all (\<lambda>item. \<not> is_element_id (fst item)) STEP_MAPPINGS"
  using catalog_keys_accepted_all by (simp add: step_keys_def list_all_iff)

lemma mset_map_filter_split:
  "mset (map g (filter (\<lambda>x. \<not> P x) xs)) + mset (map g (filter P xs)) = mset (map g xs)"
  by (induction xs) auto

lemma partition_sets:
  assumes "mset ms + mset cs = mset ks" and "distinct ks"
  shows "set ms \<union> set cs = set ks \<and> set ms \<inter> set cs = {}"
proof -
  have e: "mset (ms @ cs) = mset ks"
    using assms(1) by simp
  then have "distinct (ms @ cs)"
    using assms(2) mset_eq_imp_distinct_iff by blast
  moreover have "set (ms @ cs) = set ks"
    using e by (rule mset_eq_setD)
  ultimately show ?thesis by simp
qed

text \<open>
  C4: for every session and every file system, \<^verbatim>\<open>get_missing_steps\<close> and
  \<^verbatim>\<open>get_completed_steps\<close> return (neither raises) and partition the catalog. Taken
  together as multisets the two lists are the catalog keys, which are distinct, so every
  catalog key occurs exactly once in exactly one of the lists and no other key occurs;
  the lists are disjoint, and each is a subsequence of the catalog keys, so both keep
  the catalog order.
\<close>

theorem missing_completed_partition:
  "\<exists>missing completed.
     get_missing_steps self w = Inr missing
   \<and> get_completed_steps self w = Inr completed
   \<and> mset missing + mset completed = mset step_keys
   \<and> distinct step_keys
   \<and> set missing \<union> set completed = set step_keys
   \<and> set missing \<inter> set completed = {}
   \<and> subseq missing step_keys
   \<and> subseq completed step_keys"
proof -
  let ?P = "\<lambda>(k, f). in_session k w = Inr True \<or> path_exists (joinpath (artifacts_dir self) f) w"
  let ?m = "map fst (filter (\<lambda>x. \<not> ?P x) STEP_MAPPINGS)"
  let ?c = "map fst (filter ?P STEP_MAPPINGS)"
  have m: "get_missing_steps self w = Inr ?m"
    by (simp add: get_missing_steps_def missing_loop_filter [OF catalog_items_accepted]
          case_prod_unfold)
  have c: "get_completed_steps self w = Inr ?c"
    by (simp add: get_completed_steps_def completed_loop_filter [OF catalog_items_accepted])
  have part: "mset ?m + mset ?c = mset step_keys"
    unfolding step_keys_def by (rule mset_map_filter_split)
  have d: "distinct step_keys"
    unfolding step_keys_def by (rule catalog_keys_distinct)
  have u: "set ?m \<union> set ?c = set step_keys" and i: "set ?m \<inter> set ?c = {}"
    using partition_sets [OF part d] by blast+
  have sm: "subseq ?m step_keys"
    unfolding step_keys_def by (intro subseq_map subseq_filter_left)
  have sc: "subseq ?c step_keys"
    unfolding step_keys_def by (intro subseq_map subseq_filter_left)
  show ?thesis
    by (rule exI [of _ ?m], rule exI [of _ ?c]) (intro conjI m c part d u i sm sc)
qed

section \<open>Serialisation round trip\<close>

text \<open>
  C5: for every catalog key and every valid payload \<open>v\<close>, when \<^verbatim>\<open>save_step_result\<close>
  returns true, \<^verbatim>\<open>load_step_result\<close> on the resulting world returns \<open>v\<close>. That
  \<^verbatim>\<open>pickle.load\<close> gives back what \<^verbatim>\<open>pickle.dump\<close> wrote is part of the file model;
  what the proof adds is that the two methods use the same path, that a successful save
  has written a complete pickle, and that a valid payload is not \<^verbatim>\<open>None\<close>, the one
  value the load cannot tell from a failure.
\<close>

theorem save_then_load_roundtrip:
  assumes "k \<in> set step_keys" and "is_valid_data v"
    and "save_step_result self k v w = (True, w')"
  shows "load_step_result self k w' = v"
proof -
  obtain filename where fn: "map_of STEP_MAPPINGS k = Some filename"
    using known_key [OF assms(1)] by blast
  let ?p = "joinpath (artifacts_dir self) filename"
  obtain w1 where o: "open_wb ?p w = Inr w1"
    and w': "w' = w1\<lparr>nodes := (nodes w1)(?p \<mapsto> File (Pickle v))\<rparr>"
    using assms(3) fn
    by (auto simp add: save_step_result_def pickle_dump_def Let_def
          split: sum.splits if_splits)
  have "node_at w ?p \<noteq> Some Dir"
    using o by (auto simp add: open_wb_def split: if_splits)
  then have "parts ?p \<noteq> []"
    by (auto simp add: node_at_def)
  then have "node_at w' ?p = Some (File (Pickle v))"
    using w' by (simp add: node_at_def)
  then show ?thesis
    using fn by (simp add: load_step_result_def path_exists_def open_rb_def)
qed

theorem save_then_load_roundtrip_witness:
  "''training_time'' \<in> set step_keys \<and> is_valid_data (PFloat (85 / 2))
   \<and> fst (save_step_result example_manager ''training_time'' (PFloat (85 / 2)) fresh_world) = True
   \<and> load_step_result example_manager ''training_time''
        (snd (save_step_result example_manager ''training_time'' (PFloat (85 / 2)) fresh_world))
       = PFloat (85 / 2)"
proof -
  have v: "is_valid_data (PFloat (85 / 2))" by simp
  have ok: "fst (save_step_result example_manager ''training_time'' (PFloat (85 / 2)) fresh_world) = True"
    by (simp add: save_step_result_def training_time_file training_time_path open_wb_def
          has_nul_def node_at_def parent_def pickle_dump_def fresh_world_def
          training_time_pkl_def artifacts_def Let_def)
  then have s: "save_step_result example_manager ''training_time'' (PFloat (85 / 2)) fresh_world
      = (True, snd (save_step_result example_manager ''training_time'' (PFloat (85 / 2)) fresh_world))"
    by (metis prod.collapse)
  show ?thesis
    using save_then_load_roundtrip [OF training_time_known v s] training_time_known v ok
    by simp
qed

section \<open>Validity\<close>

text \<open>
  C6: \<^verbatim>\<open>_is_valid_data\<close> is false for \<^verbatim>\<open>None\<close>, for an empty dict, for an empty list
  or tuple and for a data frame with an empty axis; it is true for \<^verbatim>\<open>0\<close>, \<^verbatim>\<open>0.0\<close>
  and the empty string, and for every dict, list, tuple and data frame that is not
  empty.
\<close>

theorem is_valid_data_cases:
  "is_valid_data PNone = False
   \<and> is_valid_data (PDict []) = False
   \<and> is_valid_data (PList []) = False
   \<and> is_valid_data (PTuple []) = False
   \<and> is_valid_data (PDataFrame [] columns) = False
   \<and> is_valid_data (PDataFrame index []) = False
   \<and> is_valid_data (PInt 0) = True
   \<and> is_valid_data (PFloat 0) = True
   \<and> is_valid_data (PStr []) = True
   \<and> is_valid_data (PDict (item # items)) = True
   \<and> is_valid_data (PList (x # xs)) = True
   \<and> is_valid_data (PTuple (x # xs)) = True
   \<and> is_valid_data (PDataFrame (i # index) (c # columns)) = True"
  by simp

section \<open>Writing both tiers\<close>




section \<open>Restoring every stage\<close>

text \<open>
  A key is settled in a world when an unforced load of it has nothing to do: the session
  entry is valid, or the file gives \<^verbatim>\<open>None\<close>, or the session entry already is what the
  file gives.
\<close>

lemma load_settled:
  assumes "\<not> is_element_id k"
    and "in_session k w = Inr True \<or> load_step_result self k w = PNone
         \<or> session_state w k = Some (load_step_result self k w)"
  shows "\<exists>ok. load_from_file_to_session self k False w = Inr (ok, w)"
proof (cases "in_session k w = Inr True \<or> load_step_result self k w = PNone")
  case True
  then show ?thesis
    using assms(1) by (auto simp add: load_accepted)
next
  case False
  then have "session_state w k = Some (load_step_result self k w)"
    using assms(2) by blast
  then have "(session_state w)(k \<mapsto> load_step_result self k w) = session_state w"
    by (auto simp add: fun_upd_idem_iff)
  then have "load_from_file_to_session self k False w = Inr (True, w)"
    using assms(1) False by (simp add: load_accepted)
  then show ?thesis by blast
qed

lemma load_settles:
  assumes "\<not> is_element_id k"
  shows "\<exists>ok w'. load_from_file_to_session self k False w = Inr (ok, w')
           \<and> nodes w' = nodes w
           \<and> (\<forall>j. j \<noteq> k \<longrightarrow> session_state w' j = session_state w j)
           \<and> (in_session k w' = Inr True \<or> load_step_result self k w' = PNone
                \<or> session_state w' k = Some (load_step_result self k w'))"
proof (cases "in_session k w = Inr True \<or> load_step_result self k w = PNone")
  case True
  then show ?thesis
    using assms by (auto simp add: load_accepted)
next
  case False
  let ?w' = "w\<lparr>session_state := (session_state w)(k \<mapsto> load_step_result self k w)\<rparr>"
  have l: "load_step_result self k ?w' = load_step_result self k w"
    by (rule load_step_result_nodes) simp
  have "load_from_file_to_session self k False w = Inr (True, ?w')"
    using assms False by (simp add: load_accepted)
  moreover have "nodes ?w' = nodes w" by simp
  moreover have "\<forall>j. j \<noteq> k \<longrightarrow> session_state ?w' j = session_state w j" by simp
  moreover have "session_state ?w' k = Some (load_step_result self k ?w')"
    unfolding l by simp
  ultimately show ?thesis by blast
qed

lemma settled_preserved:
  assumes "in_session k w = Inr True \<or> load_step_result self k w = PNone
           \<or> session_state w k = Some (load_step_result self k w)"
    and "nodes w' = nodes w" and "session_state w' k = session_state w k"
  shows "in_session k w' = Inr True \<or> load_step_result self k w' = PNone
         \<or> session_state w' k = Some (load_step_result self k w')"
  using assms load_step_result_nodes [OF assms(2), of self k] in_session_cong [OF assms(3)]
  by simp

lemma restore_loop_settles:
  assumes "list_all (\<lambda>k. \<not> is_element_id k) ks"
  shows "\<exists>r' w'. restore_loop self False ks r w = Inr (r', w')
           \<and> dom r' = dom r \<union> set ks
           \<and> nodes w' = nodes w
           \<and> (\<forall>k. k \<notin> set ks \<longrightarrow> session_state w' k = session_state w k)
           \<and> (\<forall>k \<in> set ks. in_session k w' = Inr True \<or> load_step_result self k w' = PNone
                  \<or> session_state w' k = Some (load_step_result self k w'))"
  using assms
proof (induction ks arbitrary: r w)
  case Nil
  then show ?case by simp
next
  case (Cons j ks)
  have a: "\<not> is_element_id j" and rest: "list_all (\<lambda>k. \<not> is_element_id k) ks"
    using Cons.prems by simp_all
  obtain ok w1 where l: "load_from_file_to_session self j False w = Inr (ok, w1)"
    and n1: "nodes w1 = nodes w"
    and o1: "\<forall>i. i \<noteq> j \<longrightarrow> session_state w1 i = session_state w i"
    and s1: "in_session j w1 = Inr True \<or> load_step_result self j w1 = PNone
                \<or> session_state w1 j = Some (load_step_result self j w1)"
    using load_settles [OF a, of self w] by blast
  obtain r' w' where rl: "restore_loop self False ks (r(j \<mapsto> ok)) w1 = Inr (r', w')"
    and d: "dom r' = dom (r(j \<mapsto> ok)) \<union> set ks"
    and n: "nodes w' = nodes w1"
    and o: "\<forall>k. k \<notin> set ks \<longrightarrow> session_state w' k = session_state w1 k"
    and s: "\<forall>k \<in> set ks. in_session k w' = Inr True \<or> load_step_result self k w' = PNone
                  \<or> session_state w' k = Some (load_step_result self k w')"
    using Cons.IH [OF rest, of "r(j \<mapsto> ok)" w1] by blast
  have sj: "in_session j w' = Inr True \<or> load_step_result self j w' = PNone
                \<or> session_state w' j = Some (load_step_result self j w')"
  proof (cases "j \<in> set ks")
    case True
    then show ?thesis using s by blast
  next
    case False
    then have "session_state w' j = session_state w1 j" using o by blast
    then show ?thesis by (rule settled_preserved [OF s1 n])
  qed
  have "restore_loop self False (j # ks) r w = Inr (r', w')"
    using l rl by simp
  moreover have "dom r' = dom r \<union> set (j # ks)"
    using d by auto
  moreover have "nodes w' = nodes w"
    using n n1 by simp
  moreover have "\<forall>k. k \<notin> set (j # ks) \<longrightarrow> session_state w' k = session_state w k"
    using o o1 by simp
  moreover have "\<forall>k \<in> set (j # ks). in_session k w' = Inr True \<or> load_step_result self k w' = PNone
                  \<or> session_state w' k = Some (load_step_result self k w')"
    using s sj by simp
  ultimately show ?case by blast
qed

lemma restore_loop_noop:
  assumes "list_all (\<lambda>k. \<not> is_element_id k) ks"
    and "\<forall>k \<in> set ks. in_session k w = Inr True \<or> load_step_result self k w = PNone
            \<or> session_state w k = Some (load_step_result self k w)"
  shows "\<exists>r'. restore_loop self False ks r w = Inr (r', w) \<and> dom r' = dom r \<union> set ks"
  using assms
proof (induction ks arbitrary: r)
  case Nil
  then show ?case by simp
next
  case (Cons j ks)
  have a: "\<not> is_element_id j" and rest: "list_all (\<lambda>k. \<not> is_element_id k) ks"
    using Cons.prems(1) by simp_all
  have sj: "in_session j w = Inr True \<or> load_step_result self j w = PNone
            \<or> session_state w j = Some (load_step_result self j w)"
    and sr: "\<forall>k \<in> set ks. in_session k w = Inr True \<or> load_step_result self k w = PNone
            \<or> session_state w k = Some (load_step_result self k w)"
    using Cons.prems(2) by simp_all
  obtain ok where l: "load_from_file_to_session self j False w = Inr (ok, w)"
    using load_settled [OF a sj] by blast
  obtain r' where rl: "restore_loop self False ks (r(j \<mapsto> ok)) w = Inr (r', w)"
    and d: "dom r' = dom (r(j \<mapsto> ok)) \<union> set ks"
    using Cons.IH [OF rest sr, of "r(j \<mapsto> ok)"] by blast
  have "restore_loop self False (j # ks) r w = Inr (r', w)"
    using l rl by simp
  moreover have "dom r' = dom r \<union> set (j # ks)"
    using d by auto
  ultimately show ?case by blast
qed

text \<open>
  C8: for every starting session and file system, \<^verbatim>\<open>restore_all_steps\<close> without force
  returns (it does not raise) and is idempotent: the second call in a row leaves the
  world, and so the session, as the first call left it. The returned dict has a key for
  every catalog stage and no other, on the first call and on the second.
\<close>

theorem restore_all_idempotent:
  "\<exists>r1 r2 w1.
     restore_all_steps self False w = Inr (r1, w1)
   \<and> restore_all_steps self False w1 = Inr (r2, w1)
   \<and> dom r1 = set step_keys
   \<and> dom r2 = set step_keys"
proof -
  obtain r1 w1 where 1: "restore_loop self False step_keys Map.empty w = Inr (r1, w1)"
    and d1: "dom r1 = dom (Map.empty :: string \<rightharpoonup> bool) \<union> set step_keys"
    and s: "\<forall>k \<in> set step_keys. in_session k w1 = Inr True \<or> load_step_result self k w1 = PNone
                  \<or> session_state w1 k = Some (load_step_result self k w1)"
    using restore_loop_settles [OF catalog_keys_accepted_all, of self Map.empty w] by blast
  obtain r2 where 2: "restore_loop self False step_keys Map.empty w1 = Inr (r2, w1)"
    and d2: "dom r2 = dom (Map.empty :: string \<rightharpoonup> bool) \<union> set step_keys"
    using restore_loop_noop [OF catalog_keys_accepted_all s, of Map.empty] by blast
  have "restore_all_steps self False w = Inr (r1, w1)"
    and "restore_all_steps self False w1 = Inr (r2, w1)"
    and "dom r1 = set step_keys" and "dom r2 = set step_keys"
    using 1 2 d1 d2 by (simp_all add: restore_all_steps_def)
  then show ?thesis by blast
qed

section \<open>The singleton accessor\<close>

lemma mkdir_chain_dirs:
  "mkdir_chain ps w = (None, w') \<Longrightarrow>
   (\<forall>p. node_at w p = Some Dir \<longrightarrow> node_at w' p = Some Dir)
   \<and> (\<forall>p \<in> set ps. node_at w' p = Some Dir)"
proof (induction ps arbitrary: w)
  case Nil
  then show ?case by simp
next
  case (Cons q ps)
  show ?case
  proof (cases "node_at w q")
    case None
    let ?w1 = "w\<lparr>nodes := (nodes w)(q \<mapsto> Dir)\<rparr>"
    have c: "mkdir_chain ps ?w1 = (None, w')"
      using Cons.prems None by (simp split: if_splits)
    have k: "\<forall>p. node_at w p = Some Dir \<longrightarrow> node_at ?w1 p = Some Dir"
      by (simp add: node_at_def)
    have q: "node_at ?w1 q = Some Dir"
      by (simp add: node_at_def)
    show ?thesis
      using Cons.IH [OF c] k q by simp
  next
    case (Some n)
    then have d: "n = Dir" and c: "mkdir_chain ps w = (None, w')"
      using Cons.prems by (cases n; simp)+
    show ?thesis
      using Cons.IH [OF c] Some d by simp
  qed
qed

lemma Path_mkdir_is_dir:
  assumes "Path_mkdir p w = (None, w')"
  shows "is_dir p w'"
proof (cases "parts p = []")
  case True
  then show ?thesis by (simp add: is_dir_def node_at_def)
next
  case False
  have c: "mkdir_chain (ancestors_and_self p) w = (None, w')"
    using assms by (simp add: Path_mkdir_def split: if_splits)
  have "length (parts p) \<in> {1..<Suc (length (parts p))}"
    using False by (simp add: Suc_leI)
  then have "(\<lambda>n. p\<lparr>parts := take n (parts p)\<rparr>) (length (parts p)) \<in> set (ancestors_and_self p)"
    unfolding ancestors_and_self_def set_map set_upt by (rule imageI)
  then have "p \<in> set (ancestors_and_self p)" by simp
  then show ?thesis
    using mkdir_chain_dirs [OF c] by (simp add: is_dir_def)
qed

text \<open>
  C9, as stated, fails: the claim says that the first call, which supplies the directory,
  constructs the shared instance. When a regular file stands where the directory should
  be, \<^verbatim>\<open>mkdir\<close> in the constructor raises \<^verbatim>\<open>FileExistsError\<close>, the accessor does not
  catch it, and the global is still \<^verbatim>\<open>None\<close> after the call.
\<close>

theorem singleton_first_call_counterexample:
  "get_step_results_manager (Some ''artifacts'') None blocked_world
     = (Inl FileExistsError, None, blocked_world)"
  by (simp add: get_step_results_manager_def StepResultsManager_init_def Path_mkdir_def
        Path_def splitroot_def has_nul_def ancestors_and_self_def node_at_def
        blocked_world_def artifacts_def)

text \<open>
  C9 (amended): \<^verbatim>\<open>get_step_results_manager\<close>. Before the first construction a call
  without a directory raises the \<^verbatim>\<open>ValueError\<close>, returns no instance and leaves the
  global empty. A call with a directory constructs the instance when the directory can be
  created or already exists: the instance holds \<^verbatim>\<open>Path\<close> of the argument, the
  directory exists afterwards, and the global holds the instance; when \<^verbatim>\<open>mkdir\<close> raises,
  the accessor raises the same exception and the global stays empty. Once the global
  holds an instance, a call with any argument or none returns that instance and changes
  nothing.
\<close>

theorem singleton_accessor:
  "get_step_results_manager None None w
     = (Inl (ValueError ''artifacts_dir must be provided for first initialization''), None, w)
   \<and> (Path_mkdir (Path dir) w = (None, w') \<longrightarrow>
        get_step_results_manager (Some dir) None w
          = (Inr \<lparr>artifacts_dir = Path dir\<rparr>, Some \<lparr>artifacts_dir = Path dir\<rparr>, w')
        \<and> is_dir (Path dir) w'
        \<and> get_step_results_manager dir' (Some \<lparr>artifacts_dir = Path dir\<rparr>) w'
          = (Inr \<lparr>artifacts_dir = Path dir\<rparr>, Some \<lparr>artifacts_dir = Path dir\<rparr>, w'))
   \<and> (Path_mkdir (Path dir) w = (Some e, w') \<longrightarrow>
        get_step_results_manager (Some dir) None w = (Inl e, None, w'))
   \<and> get_step_results_manager dir' (Some m) w = (Inr m, Some m, w)"
proof -
  have "is_dir (Path dir) w'" if "Path_mkdir (Path dir) w = (None, w')"
    using that by (rule Path_mkdir_is_dir)
  then show ?thesis
    by (simp add: get_step_results_manager_def StepResultsManager_init_def)
qed

theorem singleton_accessor_witness:
  "Path_mkdir (Path ''artifacts'') empty_world = (None, fresh_world)
   \<and> get_step_results_manager (Some ''artifacts'') None empty_world
       = (Inr example_manager, Some example_manager, fresh_world)
   \<and> is_dir artifacts fresh_world
   \<and> get_step_results_manager (Some ''elsewhere'') (Some example_manager) fresh_world
       = (Inr example_manager, Some example_manager, fresh_world)
   \<and> Path_mkdir (Path ''artifacts'') blocked_world = (Some FileExistsError, blocked_world)
   \<and> get_step_results_manager (Some ''artifacts'') None blocked_world
       = (Inl FileExistsError, None, blocked_world)"
proof -
  have p: "Path ''artifacts'' = artifacts"
    by (simp add: Path_def splitroot_def artifacts_def)
  have 1: "Path_mkdir (Path ''artifacts'') empty_world = (None, fresh_world)"
    by (simp add: p Path_mkdir_def has_nul_def ancestors_and_self_def node_at_def
          empty_world_def fresh_world_def artifacts_def)
  have 2: "Path_mkdir (Path ''artifacts'') blocked_world = (Some FileExistsError, blocked_world)"
    by (simp add: p Path_mkdir_def has_nul_def ancestors_and_self_def node_at_def
          blocked_world_def artifacts_def)
  show ?thesis
    using singleton_accessor [of empty_world "''artifacts''" fresh_world "Some ''elsewhere''"
        FileExistsError example_manager]
      singleton_accessor [of blocked_world "''artifacts''" blocked_world None
        FileExistsError example_manager] 1 2
    by (simp add: p example_manager_def)
qed

section \<open>A stored None\<close>

lemma status_loop_other:
  "list_all (\<lambda>item. \<not> is_element_id (fst item)) items \<Longrightarrow> k \<notin> fst ` set items \<Longrightarrow>
   \<exists>status'. status_loop self w items status = Inr status' \<and> status' k = status k"
proof (induction items arbitrary: status)
  case Nil
  then show ?case by simp
next
  case (Cons item items)
  obtain j f where item: "item = (j, f)" by (cases item)
  have a: "\<not> is_element_id j" and r: "list_all (\<lambda>item. \<not> is_element_id (fst item)) items"
    and n: "k \<notin> fst ` set items" and jk: "j \<noteq> k"
    using Cons.prems item by auto
  let ?st = "status(j \<mapsto>
               \<lparr>st_in_session = (case session_state w j of None \<Rightarrow> False | Some v \<Rightarrow> is_valid_data v),
                st_in_file = path_exists (joinpath (artifacts_dir self) f) w,
                st_file_path = (if path_exists (joinpath (artifacts_dir self) f) w
                                then Some (str_of_path (joinpath (artifacts_dir self) f)) else None)\<rparr>)"
  have u: "status_loop self w (item # items) status = status_loop self w items ?st"
    unfolding item by (simp add: Let_def in_session_get_eq in_session_accepted [OF a])
  obtain status' where "status_loop self w items ?st = Inr status'" and "status' k = ?st k"
    using Cons.IH [OF r n, of ?st] by blast
  then show ?case
    unfolding u using jk by simp
qed

lemma status_loop_lookup:
  "list_all (\<lambda>item. \<not> is_element_id (fst item)) items \<Longrightarrow>
   distinct (map fst items) \<Longrightarrow> map_of items k = Some filename \<Longrightarrow>
   \<exists>status'. status_loop self w items status = Inr status'
     \<and> status' k =
         Some \<lparr>st_in_session = (in_session k w = Inr True),
               st_in_file = path_exists (joinpath (artifacts_dir self) filename) w,
               st_file_path = (if path_exists (joinpath (artifacts_dir self) filename) w
                               then Some (str_of_path (joinpath (artifacts_dir self) filename))
                               else None)\<rparr>"
proof (induction items arbitrary: status)
  case Nil
  then show ?case by simp
next
  case (Cons item items)
  obtain j f where item: "item = (j, f)" by (cases item)
  have a: "\<not> is_element_id j" and r: "list_all (\<lambda>item. \<not> is_element_id (fst item)) items"
    using Cons.prems item by auto
  let ?st = "status(j \<mapsto>
               \<lparr>st_in_session = (case session_state w j of None \<Rightarrow> False | Some v \<Rightarrow> is_valid_data v),
                st_in_file = path_exists (joinpath (artifacts_dir self) f) w,
                st_file_path = (if path_exists (joinpath (artifacts_dir self) f) w
                                then Some (str_of_path (joinpath (artifacts_dir self) f)) else None)\<rparr>)"
  have u: "status_loop self w (item # items) status = status_loop self w items ?st"
    unfolding item by (simp add: Let_def in_session_get_eq in_session_accepted [OF a])
  show ?case
  proof (cases "j = k")
    case True
    then have n: "k \<notin> fst ` set items" and f: "f = filename"
      using Cons.prems item by auto
    obtain status' where "status_loop self w items ?st = Inr status'" and "status' k = ?st k"
      using status_loop_other [OF r n, of self w ?st] by blast
    then show ?thesis
      unfolding u using True f a by (simp add: in_session_accepted)
  next
    case False
    then have "map_of items k = Some filename" and "distinct (map fst items)"
      using Cons.prems item by auto
    then show ?thesis
      unfolding u using Cons.IH [OF r, of ?st] by blast
  qed
qed

lemma get_completed_steps_member:
  assumes "map_of STEP_MAPPINGS k = Some filename"
    and "path_exists (joinpath (artifacts_dir self) filename) w"
  shows "\<exists>completed. get_completed_steps self w = Inr completed \<and> k \<in> set completed"
proof -
  have "(k, filename) \<in> set STEP_MAPPINGS"
    using assms(1) by (rule map_of_SomeD)
  then show ?thesis
    using assms(2)
    by (force simp add: get_completed_steps_def completed_loop_filter [OF catalog_items_accepted])
qed

text \<open>
  C10, as stated, fails: the claim says that \<^verbatim>\<open>load_from_file_to_session\<close> returns
  failure whenever the file of a known key unpickles to \<^verbatim>\<open>None\<close>. With a valid session
  entry for \<^verbatim>\<open>training_time\<close> and no force, the call returns true before it looks at
  the file.
\<close>

theorem stored_none_load_counterexample:
  "map_of STEP_MAPPINGS ''training_time'' = Some ''training_time.pkl''
   \<and> node_at none_file_world (joinpath (artifacts_dir example_manager) ''training_time.pkl'')
       = Some (File (Pickle PNone))
   \<and> load_from_file_to_session example_manager ''training_time'' False none_file_world
       = Inr (True, none_file_world)"
  by (simp add: training_time_file training_time_path node_at_def
        load_accepted [OF training_time_accepted] in_session_accepted [OF training_time_accepted]
        none_file_world_def training_time_pkl_def artifacts_def)

text \<open>
  C10 (amended): for a known key whose file exists and unpickles to \<^verbatim>\<open>None\<close>,
  \<^verbatim>\<open>load_step_result\<close> returns \<^verbatim>\<open>None\<close>, as it does when the file is removed;
  \<^verbatim>\<open>load_from_file_to_session\<close> does not raise, never changes the world and returns
  false whenever it reaches the file, that is with force or without a valid session
  entry (it returns true exactly when there is no force and the session entry is
  valid); \<^verbatim>\<open>get_step_status\<close> reports \<^verbatim>\<open>in_file\<close> true for the key and
  \<^verbatim>\<open>get_completed_steps\<close> lists it.
\<close>

theorem stored_none_reads_as_absent:
  assumes "map_of STEP_MAPPINGS k = Some filename"
    and "node_at w (joinpath (artifacts_dir self) filename) = Some (File (Pickle PNone))"
  shows "load_step_result self k w = PNone
       \<and> load_step_result self k w
           = load_step_result self k
               (w\<lparr>nodes := (nodes w)(joinpath (artifacts_dir self) filename := None)\<rparr>)
       \<and> load_from_file_to_session self k force w
           = Inr (\<not> force \<and> in_session k w = Inr True, w)
       \<and> (\<exists>status. get_step_status self w = Inr status
             \<and> map_option st_in_file (status k) = Some True)
       \<and> (\<exists>completed. get_completed_steps self w = Inr completed \<and> k \<in> set completed)"
proof -
  let ?p = "joinpath (artifacts_dir self) filename"
  have acc: "\<not> is_element_id k"
    using catalog_keys_accepted [OF file_known [OF assms(1)]] .
  have ne: "parts ?p \<noteq> []"
    using assms(2) by (auto simp add: node_at_def split: if_splits)
  have ex: "path_exists ?p w"
    using assms(2) by (simp add: path_exists_def)
  have l: "load_step_result self k w = PNone"
    using assms ex by (simp add: load_step_result_def open_rb_def)
  have a: "load_step_result self k (w\<lparr>nodes := (nodes w)(?p := None)\<rparr>) = PNone"
    using assms(1) ne by (simp add: load_step_result_def path_exists_def node_at_def)
  have ld: "load_from_file_to_session self k force w
              = Inr (\<not> force \<and> in_session k w = Inr True, w)"
    using l acc by (simp add: load_accepted)
  obtain status where "get_step_status self w = Inr status"
    and "status k = Some \<lparr>st_in_session = (in_session k w = Inr True),
               st_in_file = path_exists ?p w,
               st_file_path = (if path_exists ?p w then Some (str_of_path ?p) else None)\<rparr>"
    unfolding get_step_status_def
    using status_loop_lookup [OF catalog_items_accepted catalog_keys_distinct assms(1),
        of self w Map.empty]
    by blast
  then have st: "\<exists>status. get_step_status self w = Inr status
             \<and> map_option st_in_file (status k) = Some True"
    using ex by simp
  have c: "\<exists>completed. get_completed_steps self w = Inr completed \<and> k \<in> set completed"
    using get_completed_steps_member [OF assms(1) ex] .
  show ?thesis
    using l a ld st c by simp
qed

theorem stored_none_reads_as_absent_witness:
  "map_of STEP_MAPPINGS ''training_time'' = Some ''training_time.pkl''
   \<and> node_at none_file_fresh_world (joinpath (artifacts_dir example_manager) ''training_time.pkl'')
       = Some (File (Pickle PNone))
   \<and> load_step_result example_manager ''training_time'' none_file_fresh_world = PNone
   \<and> load_from_file_to_session example_manager ''training_time'' False none_file_fresh_world
       = Inr (False, none_file_fresh_world)
   \<and> (\<exists>completed. get_completed_steps example_manager none_file_fresh_world = Inr completed
         \<and> ''training_time'' \<in> set completed)"
proof -
  have f: "node_at none_file_fresh_world
             (joinpath (artifacts_dir example_manager) ''training_time.pkl'')
           = Some (File (Pickle PNone))"
    by (simp add: training_time_path node_at_def none_file_fresh_world_def
          training_time_pkl_def artifacts_def)
  have i: "in_session ''training_time'' none_file_fresh_world = Inr False"
    by (simp add: in_session_accepted [OF training_time_accepted] none_file_fresh_world_def)
  show ?thesis
    using stored_none_reads_as_absent [OF training_time_file f, of False] training_time_file f i
    by simp
qed

end
